theory Spec2Isabelle
  imports Main "HOL-Library.Sublist" "HOL-Library.Dlist"
begin

section \<open>Syntax trees\<close>

text \<open>
  The generator is an \<^verbatim>\<open>ast.NodeVisitor\<close>. It has a handler for four node classes;
  every other node class (statements such as \<^verbatim>\<open>if\<close>, \<^verbatim>\<open>try\<close>, \<^verbatim>\<open>pass\<close>, and all
  expressions) falls through to \<^verbatim>\<open>generic_visit\<close>, which only walks the children.
  \<open>Other\<close> stands for all of those. Children are kept in the order in which
  \<^verbatim>\<open>generic_visit\<close> iterates over them, which is source order.
\<close>

datatype node =
    Module "node list"
  | FunctionDef string "node list"
  | AsyncFunctionDef string "node list"
  | ClassDef string "node list"
  | Other "node list"

datatype error = IndexError | SyntaxError | OSError

section \<open>Generator state\<close>

text \<open>
  \<^verbatim>\<open>self.module\<close> is a \<^verbatim>\<open>pathlib.Path\<close>; the generator reads its \<^verbatim>\<open>parent\<close>, \<^verbatim>\<open>name\<close>
  and \<^verbatim>\<open>stem\<close>. A path is a list of components. \<^verbatim>\<open>stem\<close> is computed by pathlib from
  the name and is carried as a field.
\<close>

type_synonym path = "string list"

record source_module =
  parent :: path
  name :: string
  stem :: string

text \<open>
  \<^verbatim>\<open>self.imports\<close> is a Python set of strings: a \<open>dlist\<close>, the type of lists without
  duplicates. \<open>Dlist.insert\<close> is \<^verbatim>\<open>set.add\<close> and \<open>list_of_dlist\<close> is \<^verbatim>\<open>list(...)\<close>.
  Python does not specify the order in which a set is enumerated; the model
  enumerates in insertion order.
\<close>

record generator =
  module :: source_module
  module_docstring :: string
  imports_set :: "string dlist"
  lines :: "string list"
  indent :: int
  current_cls :: "string option"

definition linesep :: string where
  "linesep = [CHR 0x0A]"

definition tab :: string where
  "tab = ''    ''"

definition blankline :: string where
  "blankline = ''''"

definition default_assert_code :: string where
  \<open>default_assert_code = ''assert False, "not implemented"''\<close>

definition default_docstring :: string where
  \<open>default_docstring = ''"""Should ..."""''\<close>

definition tests_dir_name :: string where
  "tests_dir_name = ''tests''"

text \<open>\<^verbatim>\<open>s * n\<close> on a Python string: \<open>n\<close> copies, none when \<open>n\<close> is not positive.\<close>

definition str_mul :: "string \<Rightarrow> int \<Rightarrow> string" where
  "str_mul s n = concat (replicate (nat n) s)"

text \<open>\<^verbatim>\<open>xs[i]\<close> on a Python list: a negative index counts from the end.\<close>

definition py_index :: "'a list \<Rightarrow> int \<Rightarrow> error + 'a" where
  "py_index xs i =
     (if 0 \<le> i \<and> i < int (length xs) then Inr (xs ! nat i)
      else if i < 0 \<and> - int (length xs) \<le> i then Inr (xs ! nat (int (length xs) + i))
      else Inl IndexError)"

text \<open>\<^verbatim>\<open>__init__\<close>: the state of a fresh generator for module \<open>m\<close>.\<close>

definition init :: "source_module \<Rightarrow> generator" where
  "init m = \<lparr>module = m, module_docstring = '''', imports_set = Dlist.empty, lines = [],
             indent = 0, current_cls = None\<rparr>"

section \<open>The visitor\<close>

text \<open>
  Each \<^verbatim>\<open>visit_X\<close> method mutates the generator; the model passes the generator in
  and returns the new one. The only statement of the visitor that can raise is the
  read of \<^verbatim>\<open>self.lines[-2]\<close> in \<^verbatim>\<open>visit_ClassDef\<close>.
\<close>

fun visit :: "node \<Rightarrow> generator \<Rightarrow> error + generator"
  and generic_visit :: "node list \<Rightarrow> generator \<Rightarrow> error + generator" where
  "visit (Module body) g =
     generic_visit body
       (g\<lparr>module_docstring := ''\"\"\"Unit tests for `'' @ name (module g) @ ''`\"\"\"'',
          imports_set := Dlist.insert ''import pytest'' (imports_set g)\<rparr>)"
| "visit (FunctionDef nm body) g =
     (let arg_self = (if current_cls g \<noteq> None then ''self'' else '''');
          blanklines = (if current_cls g = None then 2 else 1 :: nat);
          g1 = g\<lparr>lines := lines g @
                 [str_mul tab (indent g) @ ''def test_'' @ nm @ ''('' @ arg_self @ ''):'',
                  str_mul tab (indent g + 1) @ default_docstring,
                  str_mul tab (indent g + 1) @ default_assert_code]\<rparr>;
          g2 = g1\<lparr>lines := lines g1 @ replicate blanklines blankline\<rparr>
      in generic_visit body g2)"
| "visit (ClassDef nm body) g =
     (let clsdef_line = str_mul tab (indent g) @ ''class Test'' @ nm @ '':'';
          g1 = g\<lparr>lines := lines g @
                 [clsdef_line,
                  str_mul tab (indent g + 1) @ ''\"\"\"Tests for class `'' @ nm @ ''`\"\"\"'' @ [CHR 0x0A]]\<rparr>;
          g2 = g1\<lparr>indent := indent g1 + 1\<rparr>;
          g3 = g2\<lparr>current_cls := Some nm\<rparr>
      in case generic_visit body g3 of
           Inl e \<Rightarrow> Inl e
         | Inr g4 \<Rightarrow>
             (let g5 = g4\<lparr>current_cls := None\<rparr>
              in case py_index (lines g5) (- 2) of
                   Inl e \<Rightarrow> Inl e
                 | Inr l \<Rightarrow>
                     (let g6 = (if l = clsdef_line
                                then g5\<lparr>lines := lines g5 @ [str_mul tab (indent g5) @ ''pass'', blankline]\<rparr>
                                else g5);
                          g7 = g6\<lparr>indent := indent g6 - 1\<rparr>
                      in Inr (g7\<lparr>lines := lines g7 @ [blankline]\<rparr>))))"
| "visit (AsyncFunctionDef nm body) g =
     (let blanklines = (if current_cls g = None then 2 else 1 :: nat);
          g1 = g\<lparr>lines := lines g @
                 [str_mul tab (indent g) @ ''@pytest.mark.asyncio'',
                  str_mul tab (indent g) @ ''async def test_'' @ nm @ ''():'',
                  str_mul tab (indent g + 1) @ default_docstring,
                  str_mul tab (indent g + 1) @ default_assert_code]\<rparr>;
          g2 = g1\<lparr>lines := lines g1 @ replicate blanklines blankline\<rparr>
      in generic_visit body g2)"
| "visit (Other body) g = generic_visit body g"
| "generic_visit [] g = Inr g"
| "generic_visit (n # ns) g =
     (case visit n g of Inl e \<Rightarrow> Inl e | Inr g' \<Rightarrow> generic_visit ns g')"

section \<open>Rendering\<close>

text \<open>
  \<^verbatim>\<open>str.strip()\<close> removes the characters for which \<^verbatim>\<open>str.isspace\<close> holds from both
  ends. A \<open>char\<close> is read as a code point below 256; these are the twelve of them
  that Python counts as whitespace.
\<close>

definition isspace :: "char \<Rightarrow> bool" where
  "isspace c = List.member
     [CHR 0x09, CHR 0x0A, CHR 0x0B, CHR 0x0C, CHR 0x0D, CHR 0x1C, CHR 0x1D, CHR 0x1E,
      CHR 0x1F, CHR 0x20, CHR 0x85, CHR 0xA0] c"

definition strip :: "string \<Rightarrow> string" where
  "strip s = rev (dropWhile isspace (rev (dropWhile isspace s)))"

text \<open>\<^verbatim>\<open>sep.join(xs)\<close>\<close>

fun join :: "string \<Rightarrow> string list \<Rightarrow> string" where
  "join sep [] = []"
| "join sep [x] = x"
| "join sep (x # y # ys) = x @ sep @ join sep (y # ys)"

definition code :: "generator \<Rightarrow> string" where
  "code g =
     (let lines' = [module_docstring g] @ list_of_dlist (imports_set g) @
                   replicate 2 blankline @ lines g
      in strip (join linesep lines') @ linesep)"

section \<open>Files\<close>

text \<open>
  The file system the generator reads and writes: a partial map from paths to
  entries. Time stamps, permissions and symbolic links are left out. The operations
  below are the \<^verbatim>\<open>pathlib\<close> calls the generator makes, each with the arguments it
  passes; a call that fails changes nothing.
\<close>

datatype entry = Dir | File string

type_synonym fs = "path \<rightharpoonup> entry"

definition is_dir :: "fs \<Rightarrow> path \<Rightarrow> bool" where
  "is_dir fs p = (fs p = Some Dir)"

text \<open>\<^verbatim>\<open>Path.read_text()\<close>\<close>

definition read_text :: "fs \<Rightarrow> path \<Rightarrow> error + string" where
  "read_text fs p = (case fs p of Some (File txt) \<Rightarrow> Inr txt | _ \<Rightarrow> Inl OSError)"

text \<open>\<^verbatim>\<open>Path.mkdir(exist_ok=True)\<close>: no error when the directory is there already.\<close>

definition mkdir :: "path \<Rightarrow> fs \<Rightarrow> error + fs" where
  "mkdir p fs =
     (case fs p of
        Some Dir \<Rightarrow> Inr fs
      | Some (File _) \<Rightarrow> Inl OSError
      | None \<Rightarrow> if is_dir fs (butlast p) then Inr (fs(p \<mapsto> Dir)) else Inl OSError)"

text \<open>
  \<^verbatim>\<open>Path.touch(exist_ok=True)\<close>: an existing entry only has its time stamp renewed,
  a missing one is created as an empty file.
\<close>

definition touch :: "path \<Rightarrow> fs \<Rightarrow> error + fs" where
  "touch p fs =
     (case fs p of
        Some _ \<Rightarrow> Inr fs
      | None \<Rightarrow> if is_dir fs (butlast p) then Inr (fs(p \<mapsto> File [])) else Inl OSError)"

text \<open>\<^verbatim>\<open>Path.write_text(data)\<close>: opens with mode \<^verbatim>\<open>w\<close>, which truncates.\<close>

definition write_text :: "path \<Rightarrow> string \<Rightarrow> fs \<Rightarrow> error + fs" where
  "write_text p txt fs =
     (case fs p of
        Some Dir \<Rightarrow> Inl OSError
      | _ \<Rightarrow> if is_dir fs (butlast p) then Inr (fs(p \<mapsto> File txt)) else Inl OSError)"

definition module_path :: "source_module \<Rightarrow> path" where
  "module_path m = parent m @ [name m]"

definition tests_dir :: "generator \<Rightarrow> path" where
  "tests_dir g = parent (module g) @ [tests_dir_name]"

definition conftest_path :: "generator \<Rightarrow> path" where
  "conftest_path g = tests_dir g @ [''conftest.py'']"

definition test_file_path :: "generator \<Rightarrow> path" where
  "test_file_path g = tests_dir g @ [''test_'' @ stem (module g) @ ''.py'']"

text \<open>
  \<^verbatim>\<open>generate\<close>: \<^verbatim>\<open>ast.parse\<close> is Python's parser, a parameter here. It returns the
  tree or raises; its exception is not caught.
\<close>

definition generate :: "(string \<Rightarrow> error + node) \<Rightarrow> fs \<Rightarrow> generator \<Rightarrow> error + generator" where
  "generate parse fs g =
     (case read_text fs (module_path (module g)) of
        Inl e \<Rightarrow> Inl e
      | Inr txt \<Rightarrow> (case parse txt of Inl e \<Rightarrow> Inl e | Inr module_txt \<Rightarrow> visit module_txt g))"

text \<open>
  \<^verbatim>\<open>write\<close> (\<open>write_gen\<close> here, \<open>write\<close> being a keyword) returns the file system it leaves behind and the exception, if one was
  raised: the effects of the calls before a failing one stay.
\<close>

definition write_gen :: "generator \<Rightarrow> fs \<Rightarrow> fs \<times> error option" where
  "write_gen g fs =
     (case mkdir (tests_dir g) fs of
        Inl e \<Rightarrow> (fs, Some e)
      | Inr fs1 \<Rightarrow>
          (case touch (conftest_path g) fs1 of
             Inl e \<Rightarrow> (fs1, Some e)
           | Inr fs2 \<Rightarrow>
               (case write_text (test_file_path g) (code g) fs2 of
                  Inl e \<Rightarrow> (fs2, Some e)
                | Inr fs3 \<Rightarrow> (fs3, None))))"

text \<open>
  \<^verbatim>\<open>loop_modules\<close>, with the console as the list of lines printed. An exception
  ends the loop; what was written and printed before stays. The arrow U+2794 of
  the message is given by its three UTF-8 bytes.
\<close>

record world =
  files :: fs
  console :: "string list"

fun loop_modules :: "(string \<Rightarrow> error + node) \<Rightarrow> source_module list \<Rightarrow> world \<Rightarrow> world \<times> error option" where
  "loop_modules parse [] w = (w, None)"
| "loop_modules parse (m # ms) w =
     (if is_dir (files w) (module_path m) \<or> take 1 (name m) = ''_''
      then loop_modules parse ms w
      else
        let w1 = w\<lparr>console := console w @
                   [[CHR 0xE2, CHR 0x9E, CHR 0x94] @ '' Generating test boilerplate for '' @ name m]\<rparr>
        in case generate parse (files w1) (init m) of
             Inl e \<Rightarrow> (w1, Some e)
           | Inr gen \<Rightarrow>
               (case write_gen gen (files w1) of
                  (fs', Some e) \<Rightarrow> (w1\<lparr>files := fs'\<rparr>, Some e)
                | (fs', None) \<Rightarrow> loop_modules parse ms (w1\<lparr>files := fs'\<rparr>)))"

section \<open>Reading the output back\<close>

text \<open>
  The declarations of a tree in source order (a node before its children, children
  left to right), and the declaration a generated line stands for, if it is the
  first line of a placeholder test or of a test class.
\<close>

datatype decl = DFunction string | DAsyncFunction string | DClass string

fun decls :: "node \<Rightarrow> decl list"
  and decls_list :: "node list \<Rightarrow> decl list" where
  "decls (Module body) = decls_list body"
| "decls (FunctionDef nm body) = DFunction nm # decls_list body"
| "decls (AsyncFunctionDef nm body) = DAsyncFunction nm # decls_list body"
| "decls (ClassDef nm body) = DClass nm # decls_list body"
| "decls (Other body) = decls_list body"
| "decls_list [] = []"
| "decls_list (n # ns) = decls n @ decls_list ns"

definition lstrip_spaces :: "string \<Rightarrow> string" where
  "lstrip_spaces l = dropWhile (\<lambda>c. c = CHR '' '') l"

definition strip_params :: "string \<Rightarrow> string" where
  "strip_params r =
     (if suffix ''(self):'' r then take (length r - 7) r else take (length r - 3) r)"

definition line_decl :: "string \<Rightarrow> decl option" where
  "line_decl l =
     (let t = lstrip_spaces l
      in if prefix ''def test_'' t then Some (DFunction (strip_params (drop 9 t)))
         else if prefix ''async def test_'' t then Some (DAsyncFunction (strip_params (drop 15 t)))
         else if prefix ''class Test'' t then Some (DClass (butlast (drop 10 t)))
         else None)"

text \<open>
  The marker of async tests. A line that reads back as an async function must be
  its indentation, \<^verbatim>\<open>async def test_\<close>, the name and an empty parameter list, and the
  line before it must be \<^verbatim>\<open>@pytest.mark.asyncio\<close> at the same indentation.
  \<open>async_marked p ls\<close> checks this for every line of \<open>ls\<close>, with \<open>p\<close> the line before
  the first one, if there is one.
\<close>

definition indent_of :: "string \<Rightarrow> string" where
  "indent_of l = takeWhile (\<lambda>c. c = CHR '' '') l"

definition marker_before :: "string option \<Rightarrow> string \<Rightarrow> bool" where
  "marker_before p l =
     (case line_decl l of
        Some (DAsyncFunction nm) \<Rightarrow>
          l = indent_of l @ ''async def test_'' @ nm @ ''():'' \<and>
          p = Some (indent_of l @ ''@pytest.mark.asyncio'')
      | _ \<Rightarrow> True)"

fun async_marked :: "string option \<Rightarrow> string list \<Rightarrow> bool" where
  "async_marked p [] = True"
| "async_marked p (l # ls) = (marker_before p l \<and> async_marked (Some l) ls)"

section \<open>What a visit leaves behind\<close>

text \<open>
  A line with something on it: after its indentation it is not empty, and it
  begins and ends with a character that is not whitespace.
\<close>

definition content :: "string \<Rightarrow> bool" where
  "content l = (case lstrip_spaces l of [] \<Rightarrow> False | c # r \<Rightarrow> \<not> isspace c \<and> \<not> isspace (last (c # r)))"

text \<open>
  The lines one visit appends are none at all, or a block that begins with a line
  with content and ends with a blank line, the line before that being no class
  declaration (the line \<^verbatim>\<open>visit_ClassDef\<close> compares against).
\<close>

definition closed_em :: "string list \<Rightarrow> bool" where
  "closed_em em \<longleftrightarrow>
     em = [] \<or> (content (hd em) \<and>
                (\<exists>pre x. em = pre @ [x, blankline] \<and> take 1 (lstrip_spaces x) \<noteq> ''c''))"

text \<open>A block of lines that is marked whatever line comes before it.\<close>

definition async_ok :: "string list \<Rightarrow> bool" where
  "async_ok em \<longleftrightarrow> (\<forall>p. async_marked p em)"

text \<open>The module docstring and the imports are as before or as \<^verbatim>\<open>visit_Module\<close> sets them.\<close>

definition header_kept :: "generator \<Rightarrow> generator \<Rightarrow> bool" where
  "header_kept g g' \<longleftrightarrow>
     module_docstring g' = module_docstring g \<and> imports_set g' = imports_set g \<or>
     module_docstring g' = ''\"\"\"Unit tests for `'' @ name (module g) @ ''`\"\"\"'' \<and>
     imports_set g' = Dlist.insert ''import pytest'' (imports_set g)"

text \<open>
  The result \<open>r\<close> of a visit started in \<open>g\<close> of a subtree with declarations \<open>ds\<close>:
  no exception, the lines of \<open>g\<close> with a block appended that reads back as \<open>ds\<close>,
  the indentation and the module as in \<open>g\<close>.
\<close>

definition visit_post :: "error + generator \<Rightarrow> generator \<Rightarrow> decl list \<Rightarrow> bool" where
  "visit_post r g ds \<longleftrightarrow>
     (\<exists>g' em. r = Inr g' \<and> lines g' = lines g @ em \<and> indent g' = indent g \<and>
        module g' = module g \<and> header_kept g g' \<and> closed_em em \<and> (em = [] \<longleftrightarrow> ds = []) \<and>
        List.map_filter line_decl em = ds \<and> async_ok em)"

section \<open>Lines and what they read back as\<close>

lemma set_str_mul_tab: "set (str_mul tab k) \<subseteq> {CHR '' ''}"
  by (auto simp: str_mul_def tab_def)

lemma lstrip_indented:
  "c \<noteq> CHR '' '' \<Longrightarrow> lstrip_spaces (str_mul tab k @ c # r) = c # r"
proof -
  assume c: "c \<noteq> CHR '' ''"
  have "\<And>x. x \<in> set (str_mul tab k) \<Longrightarrow> x = CHR '' ''"
    using set_str_mul_tab [of k] by auto
  then have "dropWhile (\<lambda>c. c = CHR '' '') (str_mul tab k @ c # r)
              = dropWhile (\<lambda>c. c = CHR '' '') (c # r)"
    by (rule dropWhile_append2)
  with c show ?thesis by (simp add: lstrip_spaces_def)
qed

lemma content_indented:
  "\<not> isspace c \<Longrightarrow> \<not> isspace (last (c # r)) \<Longrightarrow> content (str_mul tab k @ c # r)"
proof -
  assume c: "\<not> isspace c" and l: "\<not> isspace (last (c # r))"
  from c have "c \<noteq> CHR '' ''" by (auto simp: isspace_def)
  then have "lstrip_spaces (str_mul tab k @ c # r) = c # r" by (rule lstrip_indented)
  with c l show ?thesis by (simp add: content_def)
qed

lemma strip_params_self: "strip_params (nm @ ''(self):'') = nm"
  by (simp add: strip_params_def suffix_def)

lemma strip_params_none: "strip_params (nm @ ''():'') = nm"
  by (simp add: strip_params_def suffix_to_prefix)

lemma line_decl_def_line:
  "line_decl (str_mul tab k @ ''def test_'' @ nm @ ''('' @ (if b then ''self'' else '''') @ ''):'')
     = Some (DFunction nm)"
  using strip_params_self [of nm] strip_params_none [of nm]
  by (simp add: line_decl_def lstrip_indented)

lemma line_decl_async_line:
  "line_decl (str_mul tab k @ ''async def test_'' @ nm @ ''():'') = Some (DAsyncFunction nm)"
  using strip_params_none [of nm]
  by (simp add: line_decl_def lstrip_indented)

lemma line_decl_class_line:
  "line_decl (str_mul tab k @ ''class Test'' @ nm @ '':'') = Some (DClass nm)"
  by (simp add: line_decl_def lstrip_indented butlast_append)

lemma line_decl_other:
  "line_decl (str_mul tab k @ ''@pytest.mark.asyncio'') = None"
  "line_decl (str_mul tab k @ default_docstring) = None"
  "line_decl (str_mul tab k @ default_assert_code) = None"
  "line_decl (str_mul tab k @ ''pass'') = None"
  "line_decl (str_mul tab k @ ''\"\"\"Tests for class `'' @ nm @ ''`\"\"\"'' @ [CHR 0x0A]) = None"
  by (simp_all add: line_decl_def lstrip_indented default_docstring_def default_assert_code_def)

lemma line_decl_blank: "line_decl blankline = None"
  by (simp add: line_decl_def blankline_def lstrip_spaces_def)

lemma map_filter_append:
  "List.map_filter f (xs @ ys) = List.map_filter f xs @ List.map_filter f ys"
  by (simp add: List.map_filter_def)

lemma map_filter_replicate_blank: "List.map_filter line_decl (replicate n blankline) = []"
  by (induction n) (simp_all add: List.map_filter_def line_decl_blank)

lemma not_c_blank: "take 1 (lstrip_spaces blankline) \<noteq> ''c''"
  by (simp add: blankline_def lstrip_spaces_def)

lemma not_c_assert: "take 1 (lstrip_spaces (str_mul tab k @ default_assert_code)) \<noteq> ''c''"
  by (simp add: default_assert_code_def lstrip_indented)

lemma c_class_line: "take 1 (lstrip_spaces (str_mul tab k @ ''class Test'' @ nm @ '':'')) = ''c''"
  by (simp add: lstrip_indented)

lemma content_def_line:
  "content (str_mul tab k @ ''def test_'' @ nm @ ''('' @ (if b then ''self'' else '''') @ ''):'')"
  using content_indented [of "CHR ''d''" "''ef test_'' @ nm @ ''('' @ (if b then ''self'' else '''') @ ''):''" k]
  by (simp add: isspace_def)

lemma content_async_line: "content (str_mul tab k @ ''async def test_'' @ nm @ ''():'')"
  using content_indented [of "CHR ''a''" "''sync def test_'' @ nm @ ''():''" k]
  by (simp add: isspace_def)

lemma content_marker_line: "content (str_mul tab k @ ''@pytest.mark.asyncio'')"
  using content_indented [of "CHR ''@''" "''pytest.mark.asyncio''" k]
  by (simp add: isspace_def)

lemma content_class_line: "content (str_mul tab k @ ''class Test'' @ nm @ '':'')"
  using content_indented [of "CHR ''c''" "''lass Test'' @ nm @ '':''" k]
  by (simp add: isspace_def)

lemma content_pass_line: "content (str_mul tab k @ ''pass'')"
  using content_indented [of "CHR ''p''" "''ass''" k]
  by (simp add: isspace_def)

lemma py_index_neg2: "py_index (xs @ [x, y]) (- 2) = Inr x"
  by (simp add: py_index_def nth_append)

section \<open>Blocks of lines\<close>

lemma closed_em_Nil: "closed_em []"
  by (simp add: closed_em_def)

lemma closed_em_append:
  assumes "closed_em a" and "closed_em b"
  shows "closed_em (a @ b)"
proof (cases "a = []")
  case True
  with assms show ?thesis by simp
next
  case a: False
  show ?thesis
  proof (cases "b = []")
    case True
    with assms show ?thesis by simp
  next
    case False
    with assms obtain pre x where b: "b = pre @ [x, blankline]"
      and x: "take 1 (lstrip_spaces x) \<noteq> ''c''"
      by (auto simp: closed_em_def)
    from a assms have "content (hd (a @ b))" by (simp add: closed_em_def)
    moreover from b have "a @ b = (a @ pre) @ [x, blankline]" by simp
    ultimately show ?thesis using x unfolding closed_em_def by blast
  qed
qed

lemma closed_em_block:
  assumes "content h" and "take 1 (lstrip_spaces x) \<noteq> ''c''"
  shows "closed_em (h # mid @ [x, blankline])"
proof -
  have "h # mid @ [x, blankline] = (h # mid) @ [x, blankline]" by simp
  with assms show ?thesis unfolding closed_em_def by (metis list.sel(1))
qed

lemma closed_em_tail:
  assumes "content h"
  shows "closed_em ([h, d, str_mul tab k @ default_assert_code] @
                    replicate (if b then 2 else 1) blankline)"
proof (cases b)
  case True
  have "closed_em (h # [d] @ [str_mul tab k @ default_assert_code] @ [blankline, blankline])"
    using closed_em_block [OF assms not_c_blank, of "[d, str_mul tab k @ default_assert_code]"]
    by simp
  with True show ?thesis by (simp add: numeral_2_eq_2)
next
  case False
  have "closed_em (h # [d] @ [str_mul tab k @ default_assert_code, blankline])"
    using closed_em_block [OF assms not_c_assert, of "[d]" k] by simp
  with False show ?thesis by simp
qed

section \<open>Marked blocks\<close>

lemma indent_of_indented:
  "c \<noteq> CHR '' '' \<Longrightarrow> indent_of (str_mul tab k @ c # r) = str_mul tab k"
proof -
  assume c: "c \<noteq> CHR '' ''"
  have "\<And>x. x \<in> set (str_mul tab k) \<Longrightarrow> x = CHR '' ''"
    using set_str_mul_tab [of k] by auto
  then have "takeWhile (\<lambda>c. c = CHR '' '') (str_mul tab k @ c # r)
              = str_mul tab k @ takeWhile (\<lambda>c. c = CHR '' '') (c # r)"
    by (rule takeWhile_append2)
  with c show ?thesis by (simp add: indent_of_def)
qed

lemma marker_before_None: "line_decl l = None \<Longrightarrow> marker_before p l"
  by (simp add: marker_before_def)

lemma marker_before_def_line:
  "marker_before p (str_mul tab k @ ''def test_'' @ nm @ ''('' @ (if b then ''self'' else '''') @ ''):'')"
  by (simp only: marker_before_def line_decl_def_line option.case decl.case)

lemma marker_before_class_line:
  "marker_before p (str_mul tab k @ ''class Test'' @ nm @ '':'')"
  by (simp only: marker_before_def line_decl_class_line option.case decl.case)

lemma marker_before_async_line:
  "marker_before (Some (str_mul tab k @ ''@pytest.mark.asyncio''))
     (str_mul tab k @ ''async def test_'' @ nm @ ''():'')"
proof -
  have "indent_of (str_mul tab k @ ''async def test_'' @ nm @ ''():'') = str_mul tab k"
    using indent_of_indented [of "CHR ''a''" k "''sync def test_'' @ nm @ ''():''"] by simp
  then show ?thesis
    by (simp only: marker_before_def line_decl_async_line option.case decl.case)
qed

lemma async_ok_Nil: "async_ok []"
  by (simp add: async_ok_def)

lemma async_marked_append:
  "async_marked p a \<Longrightarrow> async_ok b \<Longrightarrow> async_marked p (a @ b)"
  by (induction a arbitrary: p) (simp_all add: async_ok_def)

lemma async_ok_append: "async_ok a \<Longrightarrow> async_ok b \<Longrightarrow> async_ok (a @ b)"
  using async_marked_append unfolding async_ok_def by blast

lemma async_ok_Cons: "(\<And>p. marker_before p l) \<Longrightarrow> async_ok ls \<Longrightarrow> async_ok (l # ls)"
  by (simp add: async_ok_def)

lemma async_ok_blanks: "async_ok (replicate n blankline)"
  by (induction n) (simp_all add: async_ok_Nil async_ok_Cons marker_before_None line_decl_blank)

lemma async_ok_body:
  "async_ok ([str_mul tab k @ default_docstring, str_mul tab k @ default_assert_code] @
             replicate n blankline)"
  using async_ok_blanks [of n]
  by (simp add: async_ok_Cons marker_before_None line_decl_other)

lemma async_ok_function_block:
  "async_ok ([str_mul tab i @ ''def test_'' @ nm @ ''('' @ (if b then ''self'' else '''') @ ''):'',
              str_mul tab k @ default_docstring, str_mul tab k @ default_assert_code] @
             replicate n blankline)"
  using async_ok_Cons [OF marker_before_def_line async_ok_body, of i nm b k n] by simp

lemma async_ok_async_block:
  "async_ok ([str_mul tab i @ ''@pytest.mark.asyncio'',
              str_mul tab i @ ''async def test_'' @ nm @ ''():'',
              str_mul tab k @ default_docstring, str_mul tab k @ default_assert_code] @
             replicate n blankline)"
proof -
  have "async_marked (Some (str_mul tab i @ ''async def test_'' @ nm @ ''():''))
          ([str_mul tab k @ default_docstring, str_mul tab k @ default_assert_code] @
             replicate n blankline)"
    using async_ok_body [of k n] by (simp only: async_ok_def)
  then have "async_marked (Some (str_mul tab i @ ''@pytest.mark.asyncio''))
          ((str_mul tab i @ ''async def test_'' @ nm @ ''():'') #
           [str_mul tab k @ default_docstring, str_mul tab k @ default_assert_code] @
             replicate n blankline)"
    using marker_before_async_line [of i nm] by (simp only: async_marked.simps simp_thms)
  then show ?thesis
    using marker_before_None [OF line_decl_other(1), of _ i]
    by (simp add: async_ok_def)
qed

lemma async_ok_class_block:
  assumes "async_ok em"
  shows "async_ok ([str_mul tab i @ ''class Test'' @ nm @ '':'',
                    str_mul tab k @ ''\"\"\"Tests for class `'' @ nm @ ''`\"\"\"'' @ [CHR 0x0A]] @ em @
                   (if em = [] then [str_mul tab k @ ''pass'', blankline] else []) @ [blankline])"
proof -
  have t: "async_ok ((if em = [] then [str_mul tab k @ ''pass'', blankline] else []) @ [blankline])"
    by (simp add: async_ok_Cons async_ok_Nil marker_before_None line_decl_other line_decl_blank)
  have h: "async_ok [str_mul tab i @ ''class Test'' @ nm @ '':'',
                     str_mul tab k @ ''\"\"\"Tests for class `'' @ nm @ ''`\"\"\"'' @ [CHR 0x0A]]"
    by (intro async_ok_Cons marker_before_class_line marker_before_None line_decl_other async_ok_Nil)
  from async_ok_append [OF h async_ok_append [OF assms t]] show ?thesis by simp
qed

section \<open>Sequencing visits\<close>

lemma header_kept_refl: "header_kept g g"
  by (simp add: header_kept_def)

lemma dlist_insert_idem: "Dlist.insert x (Dlist.insert x d) = Dlist.insert x d"
  by (simp add: dlist_eq_iff)

lemma header_kept_trans:
  assumes "header_kept g g1" and "header_kept g1 g2" and "module g1 = module g"
  shows "header_kept g g2"
  using assms by (auto simp: header_kept_def dlist_insert_idem)

lemma visit_post_generic_Nil: "visit_post (generic_visit [] g) g []"
  by (simp add: visit_post_def closed_em_Nil header_kept_refl async_ok_Nil)

lemma visit_post_seq:
  assumes "visit_post (Inr g1) g ds1" and "visit_post r g1 ds2"
  shows "visit_post r g (ds1 @ ds2)"
proof -
  from assms(1) obtain em1 where 1: "lines g1 = lines g @ em1" "indent g1 = indent g"
    "module g1 = module g" "closed_em em1" "em1 = [] \<longleftrightarrow> ds1 = []"
    "List.map_filter line_decl em1 = ds1" "header_kept g g1" "async_ok em1"
    by (auto simp: visit_post_def)
  from assms(2) obtain g2 em2 where 2: "r = Inr g2" "lines g2 = lines g1 @ em2"
    "indent g2 = indent g1" "module g2 = module g1" "closed_em em2" "em2 = [] \<longleftrightarrow> ds2 = []"
    "List.map_filter line_decl em2 = ds2" "header_kept g1 g2" "async_ok em2"
    by (auto simp: visit_post_def)
  have "lines g2 = lines g @ (em1 @ em2)" using 1 2 by simp
  moreover have "closed_em (em1 @ em2)" using 1 2 by (simp add: closed_em_append)
  moreover have "em1 @ em2 = [] \<longleftrightarrow> ds1 @ ds2 = []" using 1 2 by simp
  moreover have "List.map_filter line_decl (em1 @ em2) = ds1 @ ds2"
    using 1 2 by (simp add: map_filter_append)
  moreover have "header_kept g g2" using 1 2 by (blast intro: header_kept_trans)
  moreover have "async_ok (em1 @ em2)" using 1 2 by (simp add: async_ok_append)
  moreover have "indent g2 = indent g" "module g2 = module g" using 1 2 by simp_all
  ultimately show ?thesis
    unfolding visit_post_def using 2(1) by blast
qed

lemma visit_post_generic:
  assumes "\<And>n g. n \<in> set ns \<Longrightarrow> visit_post (visit n g) g (decls n)"
  shows "visit_post (generic_visit ns g) g (decls_list ns)"
  using assms
proof (induction ns arbitrary: g)
  case Nil
  show ?case using visit_post_generic_Nil by simp
next
  case (Cons n ns)
  have n: "visit_post (visit n g) g (decls n)" using Cons.prems by simp
  then obtain g1 where g1: "visit n g = Inr g1" by (auto simp: visit_post_def)
  have "visit_post (generic_visit ns g1) g1 (decls_list ns)"
    using Cons.IH Cons.prems by simp
  with n g1 have "visit_post (generic_visit ns g1) g (decls n @ decls_list ns)"
    using visit_post_seq by metis
  with g1 show ?case by simp
qed

lemma visit_post_header:
  assumes "closed_em em" and "em \<noteq> []" and "List.map_filter line_decl em = [d]"
    and "async_ok em"
  shows "visit_post (Inr (g\<lparr>lines := lines g @ em\<rparr>)) g [d]"
  using assms by (simp add: visit_post_def header_kept_def)

section \<open>The visit methods, one by one\<close>

lemma visit_FunctionDef_step:
  "visit (FunctionDef nm body) g =
     generic_visit body
       (g\<lparr>lines := lines g @
           [str_mul tab (indent g) @ ''def test_'' @ nm @ ''('' @
              (if current_cls g \<noteq> None then ''self'' else '''') @ ''):'',
            str_mul tab (indent g + 1) @ default_docstring,
            str_mul tab (indent g + 1) @ default_assert_code] @
           replicate (if current_cls g = None then 2 else 1) blankline\<rparr>)"
  by (simp add: Let_def)

lemma visit_AsyncFunctionDef_step:
  "visit (AsyncFunctionDef nm body) g =
     generic_visit body
       (g\<lparr>lines := lines g @
           [str_mul tab (indent g) @ ''@pytest.mark.asyncio'',
            str_mul tab (indent g) @ ''async def test_'' @ nm @ ''():'',
            str_mul tab (indent g + 1) @ default_docstring,
            str_mul tab (indent g + 1) @ default_assert_code] @
           replicate (if current_cls g = None then 2 else 1) blankline\<rparr>)"
  by (simp add: Let_def)

lemma visit_Module_post:
  assumes "\<And>g. visit_post (generic_visit body g) g ds"
  shows "visit_post (visit (Module body) g) g ds"
proof -
  let ?g0 = "g\<lparr>module_docstring := ''\"\"\"Unit tests for `'' @ name (module g) @ ''`\"\"\"'',
          imports_set := Dlist.insert ''import pytest'' (imports_set g)\<rparr>"
  have "header_kept g ?g0" by (simp add: header_kept_def)
  then have "visit_post (Inr ?g0) g []"
    by (simp add: visit_post_def closed_em_Nil async_ok_Nil)
  from visit_post_seq [OF this assms [of ?g0]] show ?thesis by simp
qed

lemma visit_FunctionDef_post:
  assumes "\<And>g. visit_post (generic_visit body g) g ds"
  shows "visit_post (visit (FunctionDef nm body) g) g (DFunction nm # ds)"
proof -
  let ?em = "[str_mul tab (indent g) @ ''def test_'' @ nm @ ''('' @
              (if current_cls g \<noteq> None then ''self'' else '''') @ ''):'',
            str_mul tab (indent g + 1) @ default_docstring,
            str_mul tab (indent g + 1) @ default_assert_code] @
           replicate (if current_cls g = None then 2 else 1) blankline"
  have 1: "closed_em ?em" using content_def_line by (rule closed_em_tail)
  have 2: "List.map_filter line_decl ?em = [DFunction nm]"
    using line_decl_def_line [of "indent g" nm "current_cls g \<noteq> None"]
      line_decl_other(2,3) [of "indent g + 1"]
    by (simp add: map_filter_append map_filter_replicate_blank)
  have 3: "async_ok ?em" by (rule async_ok_function_block)
  have "visit_post (Inr (g\<lparr>lines := lines g @ ?em\<rparr>)) g [DFunction nm]"
    using 1 2 3 by (intro visit_post_header) simp_all
  from visit_post_seq [OF this assms]
  show ?thesis unfolding visit_FunctionDef_step by simp
qed

lemma visit_AsyncFunctionDef_post:
  assumes "\<And>g. visit_post (generic_visit body g) g ds"
  shows "visit_post (visit (AsyncFunctionDef nm body) g) g (DAsyncFunction nm # ds)"
proof -
  let ?em = "[str_mul tab (indent g) @ ''@pytest.mark.asyncio'',
            str_mul tab (indent g) @ ''async def test_'' @ nm @ ''():'',
            str_mul tab (indent g + 1) @ default_docstring,
            str_mul tab (indent g + 1) @ default_assert_code] @
           replicate (if current_cls g = None then 2 else 1) blankline"
  let ?rest = "[str_mul tab (indent g) @ ''async def test_'' @ nm @ ''():'',
            str_mul tab (indent g + 1) @ default_docstring,
            str_mul tab (indent g + 1) @ default_assert_code] @
           replicate (if current_cls g = None then 2 else 1) blankline"
  have "closed_em ?rest" using content_async_line by (rule closed_em_tail)
  then obtain pre x where px: "?rest = pre @ [x, blankline]" "take 1 (lstrip_spaces x) \<noteq> ''c''"
    by (auto simp: closed_em_def)
  from closed_em_block [OF content_marker_line px(2), of "indent g" pre] px(1)
  have 1: "closed_em ?em" by simp
  have 2: "List.map_filter line_decl ?em = [DAsyncFunction nm]"
    using line_decl_async_line [of "indent g" nm]
      line_decl_other(2,3) [of "indent g + 1"] line_decl_other(1) [of "indent g"]
    by (simp add: map_filter_append map_filter_replicate_blank)
  have 3: "async_ok ?em" by (rule async_ok_async_block)
  have "visit_post (Inr (g\<lparr>lines := lines g @ ?em\<rparr>)) g [DAsyncFunction nm]"
    using 1 2 3 by (intro visit_post_header) simp_all
  from visit_post_seq [OF this assms]
  show ?thesis unfolding visit_AsyncFunctionDef_step by simp
qed

lemma visit_ClassDef_step:
  assumes gv: "generic_visit body
             (g\<lparr>lines := lines g @
                  [str_mul tab (indent g) @ ''class Test'' @ nm @ '':'',
                   str_mul tab (indent g + 1) @ ''\"\"\"Tests for class `'' @ nm @ ''`\"\"\"'' @ [CHR 0x0A]],
                indent := indent g + 1, current_cls := Some nm\<rparr>) = Inr g4"
    and ln: "lines g4 = (lines g @
                  [str_mul tab (indent g) @ ''class Test'' @ nm @ '':'',
                   str_mul tab (indent g + 1) @ ''\"\"\"Tests for class `'' @ nm @ ''`\"\"\"'' @ [CHR 0x0A]]) @ em"
    and em: "closed_em em"
    and ind: "indent g4 = indent g + 1"
  shows "visit (ClassDef nm body) g =
           Inr (g4\<lparr>current_cls := None,
                   lines := lines g4 @
                     (if em = [] then [str_mul tab (indent g + 1) @ ''pass'', blankline] else []) @
                     [blankline],
                   indent := indent g\<rparr>)"
proof (cases "em = []")
  case True
  with ln have "py_index (lines g4) (- 2) = Inr (str_mul tab (indent g) @ ''class Test'' @ nm @ '':'')"
    using py_index_neg2 [of "lines g"] by simp
  with gv True ind show ?thesis by (simp add: Let_def)
next
  case False
  with em obtain pre x where px: "em = pre @ [x, blankline]" "take 1 (lstrip_spaces x) \<noteq> ''c''"
    by (auto simp: closed_em_def)
  from px(2) c_class_line [of "indent g" nm]
  have ne: "x \<noteq> str_mul tab (indent g) @ ''class Test'' @ nm @ '':''" by auto
  from ln px(1) have "lines g4 = (lines g @
                  [str_mul tab (indent g) @ ''class Test'' @ nm @ '':'',
                   str_mul tab (indent g + 1) @ ''\"\"\"Tests for class `'' @ nm @ ''`\"\"\"'' @ [CHR 0x0A]] @ pre) @ [x, blankline]"
    by simp
  then have "py_index (lines g4) (- 2) = Inr x"
    by (simp only: py_index_neg2)
  with gv False ind ne show ?thesis by (simp add: Let_def)
qed

lemma visit_ClassDef_post:
  assumes "\<And>g. visit_post (generic_visit body g) g ds"
  shows "visit_post (visit (ClassDef nm body) g) g (DClass nm # ds)"
proof -
  let ?cls = "str_mul tab (indent g) @ ''class Test'' @ nm @ '':''"
  let ?doc = "str_mul tab (indent g + 1) @ ''\"\"\"Tests for class `'' @ nm @ ''`\"\"\"'' @ [CHR 0x0A]"
  let ?g3 = "g\<lparr>lines := lines g @ [?cls, ?doc], indent := indent g + 1, current_cls := Some nm\<rparr>"
  from assms [of ?g3] obtain g4 em where gv: "generic_visit body ?g3 = Inr g4"
    and ln: "lines g4 = (lines g @ [?cls, ?doc]) @ em" and ind: "indent g4 = indent g + 1"
    and md: "module g4 = module g" and em: "closed_em em" and emds: "em = [] \<longleftrightarrow> ds = []"
    and mf: "List.map_filter line_decl em = ds" and hk: "header_kept ?g3 g4"
    and ao: "async_ok em"
    by (auto simp: visit_post_def)
  let ?tail = "(if em = [] then [str_mul tab (indent g + 1) @ ''pass'', blankline] else []) @ [blankline]"
  let ?g' = "g4\<lparr>current_cls := None, lines := lines g4 @ ?tail, indent := indent g\<rparr>"
  have step: "visit (ClassDef nm body) g = Inr ?g'"
    by (rule visit_ClassDef_step [OF gv ln em ind])
  let ?all = "[?cls, ?doc] @ em @ ?tail"
  have l: "lines ?g' = lines g @ ?all" using ln by simp
  have cl: "closed_em ?all"
  proof (cases "em = []")
    case True
    then show ?thesis
      using closed_em_block [OF content_class_line not_c_blank,
          of "indent g" nm "[?doc, str_mul tab (indent g + 1) @ ''pass'']"]
      by simp
  next
    case False
    with em obtain pre x where px: "em = pre @ [x, blankline]" by (auto simp: closed_em_def)
    with False show ?thesis
      using closed_em_block [OF content_class_line not_c_blank, of "indent g" nm "?doc # pre @ [x]"]
      by simp
  qed
  have "List.map_filter line_decl ?tail = []"
    using line_decl_other(4) [of "indent g + 1"] line_decl_blank by simp
  then have m: "List.map_filter line_decl ?all = DClass nm # ds"
    using mf line_decl_class_line [of "indent g" nm] line_decl_other(5) [of "indent g + 1" nm]
    by (simp add: map_filter_append)
  have h: "header_kept g ?g'" using hk by (simp add: header_kept_def)
  have a: "async_ok ?all" using async_ok_class_block [OF ao] by simp
  show ?thesis
    unfolding visit_post_def step using l cl m md h a
    by (intro exI [of _ ?g'] exI [of _ ?all]) simp
qed

section \<open>Every visit\<close>

lemma visit_post_all:
  "visit_post (visit n g) g (decls n)"
proof (induction n arbitrary: g)
  case (Module body)
  then have "\<And>g. visit_post (generic_visit body g) g (decls_list body)"
    by (intro visit_post_generic) simp
  then show ?case using visit_Module_post by simp
next
  case (FunctionDef nm body)
  then have "\<And>g. visit_post (generic_visit body g) g (decls_list body)"
    by (intro visit_post_generic) simp
  then show ?case using visit_FunctionDef_post by simp
next
  case (AsyncFunctionDef nm body)
  then have "\<And>g. visit_post (generic_visit body g) g (decls_list body)"
    by (intro visit_post_generic) simp
  then show ?case using visit_AsyncFunctionDef_post by simp
next
  case (ClassDef nm body)
  then have "\<And>g. visit_post (generic_visit body g) g (decls_list body)"
    by (intro visit_post_generic) simp
  then show ?case using visit_ClassDef_post by simp
next
  case (Other body)
  then have "\<And>g. visit_post (generic_visit body g) g (decls_list body)"
    by (intro visit_post_generic) simp
  then show ?case by simp
qed

lemma generic_visit_post_all:
  "visit_post (generic_visit ns g) g (decls_list ns)"
  by (rule visit_post_generic) (rule visit_post_all)

section \<open>The claims about the visitor\<close>

lemma py_index_neg2_in_bounds: "2 \<le> length xs \<Longrightarrow> \<exists>l. py_index xs (- 2) = Inr l"
  by (simp add: py_index_def)

text \<open>
  Claim C9. The read of \<^verbatim>\<open>self.lines[-2]\<close> in \<^verbatim>\<open>visit_ClassDef\<close> is in bounds: the
  walk over the children of a class, started after the two lines of the class were
  appended, returns without exception a state with at least two lines, the read
  yields a line, and the whole visit of the class returns without exception.
\<close>

theorem class_check_in_bounds:
  "\<exists>g4 l g'.
     generic_visit body
       (g\<lparr>lines := lines g @
            [str_mul tab (indent g) @ ''class Test'' @ nm @ '':'',
             str_mul tab (indent g + 1) @ ''\"\"\"Tests for class `'' @ nm @ ''`\"\"\"'' @ [CHR 0x0A]],
          indent := indent g + 1, current_cls := Some nm\<rparr>) = Inr g4 \<and>
     2 \<le> length (lines g4) \<and>
     py_index (lines (g4\<lparr>current_cls := None\<rparr>)) (- 2) = Inr l \<and>
     visit (ClassDef nm body) g = Inr g'"
proof -
  let ?cls = "str_mul tab (indent g) @ ''class Test'' @ nm @ '':''"
  let ?doc = "str_mul tab (indent g + 1) @ ''\"\"\"Tests for class `'' @ nm @ ''`\"\"\"'' @ [CHR 0x0A]"
  let ?g3 = "g\<lparr>lines := lines g @ [?cls, ?doc], indent := indent g + 1, current_cls := Some nm\<rparr>"
  from generic_visit_post_all [of body ?g3] obtain g4 em
    where gv: "generic_visit body ?g3 = Inr g4" and ln: "lines g4 = (lines g @ [?cls, ?doc]) @ em"
    by (auto simp: visit_post_def)
  from ln have len: "2 \<le> length (lines g4)" by simp
  then obtain l where "py_index (lines (g4\<lparr>current_cls := None\<rparr>)) (- 2) = Inr l"
    using py_index_neg2_in_bounds [of "lines g4"] by auto
  moreover from visit_post_all [of "ClassDef nm body" g]
  obtain g' where "visit (ClassDef nm body) g = Inr g'" by (auto simp: visit_post_def)
  ultimately show ?thesis using gv len by blast
qed

text \<open>
  Claim C2. Let \<open>g4\<close> be the state after the children of a class were walked. When
  no function, async function or class is declared anywhere below the class, the
  children appended nothing and the visit appends a \<^verbatim>\<open>pass\<close> line one level deeper
  than the class declaration, a blank line, and the blank line that closes the class.
  When there is such a declaration, the children appended lines and the visit appends
  the closing blank line only.
\<close>

theorem empty_class_gets_pass:
  "\<exists>g4 em g'.
     generic_visit body
       (g\<lparr>lines := lines g @
            [str_mul tab (indent g) @ ''class Test'' @ nm @ '':'',
             str_mul tab (indent g + 1) @ ''\"\"\"Tests for class `'' @ nm @ ''`\"\"\"'' @ [CHR 0x0A]],
          indent := indent g + 1, current_cls := Some nm\<rparr>) = Inr g4 \<and>
     lines g4 = lines g @
            [str_mul tab (indent g) @ ''class Test'' @ nm @ '':'',
             str_mul tab (indent g + 1) @ ''\"\"\"Tests for class `'' @ nm @ ''`\"\"\"'' @ [CHR 0x0A]] @ em \<and>
     (em = [] \<longleftrightarrow> decls_list body = []) \<and>
     visit (ClassDef nm body) g = Inr g' \<and>
     lines g' = lines g4 @
        (if decls_list body = [] then [str_mul tab (indent g + 1) @ ''pass'', blankline] else []) @
        [blankline]"
proof -
  let ?cls = "str_mul tab (indent g) @ ''class Test'' @ nm @ '':''"
  let ?doc = "str_mul tab (indent g + 1) @ ''\"\"\"Tests for class `'' @ nm @ ''`\"\"\"'' @ [CHR 0x0A]"
  let ?g3 = "g\<lparr>lines := lines g @ [?cls, ?doc], indent := indent g + 1, current_cls := Some nm\<rparr>"
  from generic_visit_post_all [of body ?g3] obtain g4 em
    where gv: "generic_visit body ?g3 = Inr g4" and ln: "lines g4 = (lines g @ [?cls, ?doc]) @ em"
      and ind: "indent g4 = indent g + 1" and em: "closed_em em"
      and emds: "em = [] \<longleftrightarrow> decls_list body = []"
    by (auto simp: visit_post_def)
  note step = visit_ClassDef_step [OF gv ln em ind]
  show ?thesis
    apply (rule exI [of _ g4], rule exI [of _ em])
    using gv ln emds step by simp
qed

text \<open>
  Claim C3. A function appends its definition line, the docstring line and the
  assertion line, then two blank lines when \<^verbatim>\<open>current_cls\<close> is \<^verbatim>\<open>None\<close> and one blank
  line when it is set; the same holds for an async function after its marker line.
  What the children append after that is nothing or begins with a line with content,
  so the blank lines are exactly that many.
\<close>

theorem blank_lines_after_function:
  "(\<exists>g' rest.
      visit (FunctionDef nm body) g = Inr g' \<and>
      lines g' = lines g @
        [str_mul tab (indent g) @ ''def test_'' @ nm @ ''('' @
           (if current_cls g \<noteq> None then ''self'' else '''') @ ''):'',
         str_mul tab (indent g + 1) @ default_docstring,
         str_mul tab (indent g + 1) @ default_assert_code] @
        replicate (if current_cls g = None then 2 else 1) '''' @ rest \<and>
      list_all content (take 1 rest)) \<and>
   (\<exists>g' rest.
      visit (AsyncFunctionDef nm body) g = Inr g' \<and>
      lines g' = lines g @
        [str_mul tab (indent g) @ ''@pytest.mark.asyncio'',
         str_mul tab (indent g) @ ''async def test_'' @ nm @ ''():'',
         str_mul tab (indent g + 1) @ default_docstring,
         str_mul tab (indent g + 1) @ default_assert_code] @
        replicate (if current_cls g = None then 2 else 1) '''' @ rest \<and>
      list_all content (take 1 rest))"
proof
  let ?g2 = "g\<lparr>lines := lines g @
        [str_mul tab (indent g) @ ''def test_'' @ nm @ ''('' @
           (if current_cls g \<noteq> None then ''self'' else '''') @ ''):'',
         str_mul tab (indent g + 1) @ default_docstring,
         str_mul tab (indent g + 1) @ default_assert_code] @
        replicate (if current_cls g = None then 2 else 1) blankline\<rparr>"
  from generic_visit_post_all [of body ?g2] obtain g' em
    where gv: "generic_visit body ?g2 = Inr g'" and ln: "lines g' = lines ?g2 @ em"
      and em: "closed_em em"
    by (auto simp: visit_post_def)
  from em have "list_all content (take 1 em)"
    by (cases em) (auto simp: closed_em_def)
  with gv ln show "\<exists>g' rest.
      visit (FunctionDef nm body) g = Inr g' \<and>
      lines g' = lines g @
        [str_mul tab (indent g) @ ''def test_'' @ nm @ ''('' @
           (if current_cls g \<noteq> None then ''self'' else '''') @ ''):'',
         str_mul tab (indent g + 1) @ default_docstring,
         str_mul tab (indent g + 1) @ default_assert_code] @
        replicate (if current_cls g = None then 2 else 1) '''' @ rest \<and>
      list_all content (take 1 rest)"
    unfolding visit_FunctionDef_step by (simp add: blankline_def)
next
  let ?g2 = "g\<lparr>lines := lines g @
        [str_mul tab (indent g) @ ''@pytest.mark.asyncio'',
         str_mul tab (indent g) @ ''async def test_'' @ nm @ ''():'',
         str_mul tab (indent g + 1) @ default_docstring,
         str_mul tab (indent g + 1) @ default_assert_code] @
        replicate (if current_cls g = None then 2 else 1) blankline\<rparr>"
  from generic_visit_post_all [of body ?g2] obtain g' em
    where gv: "generic_visit body ?g2 = Inr g'" and ln: "lines g' = lines ?g2 @ em"
      and em: "closed_em em"
    by (auto simp: visit_post_def)
  from em have "list_all content (take 1 em)"
    by (cases em) (auto simp: closed_em_def)
  with gv ln show "\<exists>g' rest.
      visit (AsyncFunctionDef nm body) g = Inr g' \<and>
      lines g' = lines g @
        [str_mul tab (indent g) @ ''@pytest.mark.asyncio'',
         str_mul tab (indent g) @ ''async def test_'' @ nm @ ''():'',
         str_mul tab (indent g + 1) @ default_docstring,
         str_mul tab (indent g + 1) @ default_assert_code] @
        replicate (if current_cls g = None then 2 else 1) '''' @ rest \<and>
      list_all content (take 1 rest)"
    unfolding visit_AsyncFunctionDef_step by (simp add: blankline_def)
qed

lemma visit_Module_header:
  "\<exists>g'. visit (Module body) g = Inr g' \<and>
        List.map_filter line_decl (lines g') = List.map_filter line_decl (lines g) @ decls_list body \<and>
        module_docstring g' = ''\"\"\"Unit tests for `'' @ name (module g) @ ''`\"\"\"'' \<and>
        imports_set g' = Dlist.insert ''import pytest'' (imports_set g)"
proof -
  let ?g0 = "g\<lparr>module_docstring := ''\"\"\"Unit tests for `'' @ name (module g) @ ''`\"\"\"'',
          imports_set := Dlist.insert ''import pytest'' (imports_set g)\<rparr>"
  from generic_visit_post_all [of body ?g0] obtain g' em
    where gv: "generic_visit body ?g0 = Inr g'" and ln: "lines g' = lines g @ em"
      and hk: "header_kept ?g0 g'" and mf: "List.map_filter line_decl em = decls_list body"
    by (auto simp: visit_post_def)
  from hk have "module_docstring g' = ''\"\"\"Unit tests for `'' @ name (module g) @ ''`\"\"\"''"
    and "imports_set g' = Dlist.insert ''import pytest'' (imports_set g)"
    by (auto simp: header_kept_def dlist_insert_idem)
  with gv ln mf show ?thesis by (simp add: map_filter_append)
qed

text \<open>
  Claim C4. A visit of any tree in any state returns without exception, and the new
  lines, read back as declarations, are the declarations of the tree in source
  order: none is skipped, repeated or moved, at any depth of nesting. A visit of a
  module node by a fresh generator also sets the module docstring and leaves
  \<^verbatim>\<open>import pytest\<close> as the one import.
\<close>

theorem declaration_order_preserved:
  "(\<exists>g'. visit n g = Inr g' \<and>
         List.map_filter line_decl (lines g') = List.map_filter line_decl (lines g) @ decls n) \<and>
   (\<exists>g'. visit (Module body) (init m) = Inr g' \<and>
         List.map_filter line_decl (lines g') = decls (Module body) \<and>
         module_docstring g' = ''\"\"\"Unit tests for `'' @ name m @ ''`\"\"\"'' \<and>
         list_of_dlist (imports_set g') = [''import pytest''])"
proof
  show "\<exists>g'. visit n g = Inr g' \<and>
         List.map_filter line_decl (lines g') = List.map_filter line_decl (lines g) @ decls n"
    using visit_post_all [of n g] by (auto simp: visit_post_def map_filter_append)
next
  from visit_Module_header [of body "init m"] obtain g'
    where "visit (Module body) (init m) = Inr g'"
      and "List.map_filter line_decl (lines g')
             = List.map_filter line_decl (lines (init m)) @ decls_list body"
      and "module_docstring g' = ''\"\"\"Unit tests for `'' @ name (module (init m)) @ ''`\"\"\"''"
      and "imports_set g' = Dlist.insert ''import pytest'' (imports_set (init m))"
    by blast
  then show "\<exists>g'. visit (Module body) (init m) = Inr g' \<and>
         List.map_filter line_decl (lines g') = decls (Module body) \<and>
         module_docstring g' = ''\"\"\"Unit tests for `'' @ name m @ ''`\"\"\"'' \<and>
         list_of_dlist (imports_set g') = [''import pytest'']"
    by (simp add: init_def List.map_filter_def)
qed

text \<open>
  Lines that \<open>async_marked\<close> refuses: a marker at another indentation, no marker,
  a \<^verbatim>\<open>self\<close> parameter; and a pair it accepts.
\<close>

lemma async_marked_rejects:
  "\<not> async_marked None [''@pytest.mark.asyncio'', ''    async def test_f():'']"
  "\<not> async_marked None [''class TestA:'', ''async def test_f():'']"
  "\<not> async_marked None [''@pytest.mark.asyncio'', ''async def test_f(self):'']"
  "async_marked None [''    @pytest.mark.asyncio'', ''    async def test_f():'']"
  by (simp_all add: marker_before_def line_decl_def lstrip_spaces_def strip_params_def
        indent_of_def suffix_to_prefix)


text \<open>
  Claim C5. Whatever \<^verbatim>\<open>current_cls\<close> and the indentation are, an async function
  appends the marker line \<^verbatim>\<open>@pytest.mark.asyncio\<close> and directly after it, at the same
  indentation, a definition line with an empty parameter list. And in the block of
  lines that the visit of any tree appends, the lines that read back as async
  functions are the async functions of the tree, nested ones included, each of them
  with an empty parameter list and the marker line directly before it at its own
  indentation.
\<close>

theorem async_marker_and_no_receiver:
  "(\<exists>g' rest.
      visit (AsyncFunctionDef nm body) g = Inr g' \<and>
      lines g' = lines g @
        [str_mul tab (indent g) @ ''@pytest.mark.asyncio'',
         str_mul tab (indent g) @ ''async def test_'' @ nm @ ''():''] @ rest) \<and>
   (\<exists>g' em.
      visit n g = Inr g' \<and> lines g' = lines g @ em \<and>
      List.map_filter line_decl em = decls n \<and> async_marked None em)"
proof
  let ?g2 = "g\<lparr>lines := lines g @
        [str_mul tab (indent g) @ ''@pytest.mark.asyncio'',
         str_mul tab (indent g) @ ''async def test_'' @ nm @ ''():'',
         str_mul tab (indent g + 1) @ default_docstring,
         str_mul tab (indent g + 1) @ default_assert_code] @
        replicate (if current_cls g = None then 2 else 1) blankline\<rparr>"
  from generic_visit_post_all [of body ?g2] obtain g' em
    where gv: "generic_visit body ?g2 = Inr g'" and ln: "lines g' = lines ?g2 @ em"
    by (auto simp: visit_post_def)
  then show "\<exists>g' rest.
      visit (AsyncFunctionDef nm body) g = Inr g' \<and>
      lines g' = lines g @
        [str_mul tab (indent g) @ ''@pytest.mark.asyncio'',
         str_mul tab (indent g) @ ''async def test_'' @ nm @ ''():''] @ rest"
    unfolding visit_AsyncFunctionDef_step by simp
next
  from visit_post_all [of n g] obtain g' em
    where "visit n g = Inr g'" "lines g' = lines g @ em"
      "List.map_filter line_decl em = decls n" "async_ok em"
    by (auto simp: visit_post_def)
  then show "\<exists>g' em.
      visit n g = Inr g' \<and> lines g' = lines g @ em \<and>
      List.map_filter line_decl em = decls n \<and> async_marked None em"
    by (auto simp: async_ok_def)
qed

lemma visit_ClassDef_state:
  "\<exists>g'. visit (ClassDef nm body) g = Inr g' \<and> indent g' = indent g \<and> current_cls g' = None"
proof -
  let ?cls = "str_mul tab (indent g) @ ''class Test'' @ nm @ '':''"
  let ?doc = "str_mul tab (indent g + 1) @ ''\"\"\"Tests for class `'' @ nm @ ''`\"\"\"'' @ [CHR 0x0A]"
  let ?g3 = "g\<lparr>lines := lines g @ [?cls, ?doc], indent := indent g + 1, current_cls := Some nm\<rparr>"
  from generic_visit_post_all [of body ?g3] obtain g4 em
    where gv: "generic_visit body ?g3 = Inr g4" and ln: "lines g4 = (lines g @ [?cls, ?doc]) @ em"
      and ind: "indent g4 = indent g + 1" and em: "closed_em em"
    by (auto simp: visit_post_def)
  from visit_ClassDef_step [OF gv ln em ind] show ?thesis by simp
qed

text \<open>
  Claim C1. The indentation is restored by every class visit, but \<^verbatim>\<open>current_cls\<close> is
  set to \<^verbatim>\<open>None\<close>, not to the value it had before. For the source
  \<^verbatim>\<open>class A:\<close> containing \<^verbatim>\<open>class B: pass\<close> and then \<^verbatim>\<open>def m(self): pass\<close>: the
  visit of \<open>B\<close>, started with \<^verbatim>\<open>current_cls\<close> being \<open>A\<close>, ends with \<^verbatim>\<open>None\<close>, and the
  method \<open>m\<close> of \<open>A\<close> that follows gets a test without the \<^verbatim>\<open>self\<close> parameter.
  (In the tree, \<open>Other []\<close> is a \<^verbatim>\<open>pass\<close> statement and \<open>Other [Other []]\<close> the
  parameter list \<^verbatim>\<open>(self)\<close>.)
\<close>

theorem nested_class_resets_current_cls:
  "(\<exists>g'. visit (ClassDef ''B'' [Other []])
            (\<lparr>module = \<lparr>parent = [''src''], name = ''mod.py'', stem = ''mod''\<rparr>,
              module_docstring = ''\"\"\"Unit tests for `mod.py`\"\"\"'',
              imports_set = Dlist.insert ''import pytest'' Dlist.empty,
              lines = [''class TestA:'', ''    \"\"\"Tests for class `A`\"\"\"'' @ [CHR 0x0A]],
              indent = 1, current_cls = Some ''A''\<rparr>) = Inr g' \<and>
         indent g' = 1 \<and> current_cls g' = None) \<and>
   (\<exists>g'. visit (Module [ClassDef ''A'' [ClassDef ''B'' [Other []],
                                          FunctionDef ''m'' [Other [Other []], Other []]]])
            (init \<lparr>parent = [''src''], name = ''mod.py'', stem = ''mod''\<rparr>) = Inr g' \<and>
         ''    def test_m():'' \<in> set (lines g') \<and>
         ''    def test_m(self):'' \<notin> set (lines g'))"
  by (simp add: Let_def py_index_def init_def str_mul_def tab_def blankline_def
      default_docstring_def default_assert_code_def)

section \<open>Stripping and joining\<close>

lemma dropWhile_keeps_block:
  assumes "u \<noteq> []" and "\<not> P (hd u)"
  shows "\<exists>a'. dropWhile P (a @ u @ b) = a' @ u @ b"
proof (induction a)
  case Nil
  from assms obtain x u' where "u = x # u'" "\<not> P x" by (cases u) auto
  then have "dropWhile P ([] @ u @ b) = [] @ u @ b" by simp
  then show ?case by blast
next
  case (Cons y a)
  show ?case
  proof (cases "P y")
    case True
    with Cons show ?thesis by simp
  next
    case False
    then have "dropWhile P ((y # a) @ u @ b) = (y # a) @ u @ b" by simp
    then show ?thesis by blast
  qed
qed

lemma strip_keeps_block:
  assumes "u \<noteq> []" and "\<not> isspace (hd u)" and "\<not> isspace (last u)"
  shows "sublist u (strip (a @ u @ b))"
proof -
  from dropWhile_keeps_block [of u isspace a b] assms obtain a'
    where 1: "dropWhile isspace (a @ u @ b) = a' @ u @ b" by blast
  have "rev u \<noteq> []" "\<not> isspace (hd (rev u))"
    using assms by (simp_all add: hd_rev)
  from dropWhile_keeps_block [of "rev u" isspace "rev b" "rev a'"] this obtain b'
    where 2: "dropWhile isspace (rev b @ rev u @ rev a') = b' @ rev u @ rev a'" by blast
  have "strip (a @ u @ b) = a' @ u @ rev b'"
    using 1 2 by (simp add: strip_def)
  then show ?thesis by (auto simp: sublist_def)
qed

lemma strip_append_ws:
  assumes "\<And>c. c \<in> set w \<Longrightarrow> isspace c"
  shows "strip (t @ w) = strip t"
proof (cases "\<forall>c\<in>set t. isspace c")
  case True
  then have "dropWhile isspace t = []" by simp
  moreover from True assms have "\<forall>c\<in>set (t @ w). isspace c" by auto
  then have "dropWhile isspace (t @ w) = []" by (simp only: dropWhile_eq_Nil_conv)
  ultimately show ?thesis by (simp only: strip_def)
next
  case False
  then have "dropWhile isspace (t @ w) = dropWhile isspace t @ w"
    by (auto simp: dropWhile_append1)
  moreover have "dropWhile isspace (rev w @ rev (dropWhile isspace t))
                   = dropWhile isspace (rev (dropWhile isspace t))"
    using assms by (intro dropWhile_append2) simp
  ultimately show ?thesis by (simp add: strip_def)
qed

lemma last_dropWhile_same: "dropWhile P xs \<noteq> [] \<Longrightarrow> last (dropWhile P xs) = last xs"
  by (induction xs) (auto split: if_splits)

lemma strip_fixed:
  "dropWhile isspace (strip t) = strip t \<and> dropWhile isspace (rev (strip t)) = rev (strip t)"
proof -
  let ?a = "dropWhile isspace t"
  let ?b = "dropWhile isspace (rev ?a)"
  have s: "strip t = rev ?b" by (simp add: strip_def)
  have 2: "dropWhile isspace ?b = ?b" by simp
  have 1: "dropWhile isspace (rev ?b) = rev ?b"
  proof (cases "?b = []")
    case True
    then have "rev ?b = []" by (simp only: rev.simps)
    then show ?thesis by (simp only: dropWhile.simps)
  next
    case False
    have a: "?a \<noteq> []"
    proof
      assume "?a = []"
      then have "?b = []" by (simp only: rev.simps dropWhile.simps)
      with False show False by (rule notE)
    qed
    from False have "last ?b = last (rev ?a)" by (rule last_dropWhile_same)
    also have "\<dots> = hd ?a" using a by (simp add: last_rev)
    finally have "hd (rev ?b) = hd ?a" using False by (simp add: hd_rev)
    moreover have "\<not> isspace (hd ?a)" using a by (rule hd_dropWhile)
    ultimately have "\<not> isspace (hd (rev ?b))" by simp
    with False show ?thesis by (cases "rev ?b") auto
  qed
  from 1 2 s show ?thesis by simp
qed

lemma join_Cons: "join sep (x # xs) = x @ concat (map (\<lambda>l. sep @ l) xs)"
  by (induction xs arbitrary: x) simp_all

lemma join_append:
  "xs \<noteq> [] \<Longrightarrow> ys \<noteq> [] \<Longrightarrow> join sep (xs @ ys) = join sep xs @ sep @ join sep ys"
proof -
  assume "xs \<noteq> []" "ys \<noteq> []"
  then obtain x xs' y ys' where "xs = x # xs'" "ys = y # ys'"
    by (cases xs; cases ys) auto
  then show ?thesis by (simp add: join_Cons)
qed

lemma concat_lines_join:
  "xs \<noteq> [] \<Longrightarrow> concat (map (\<lambda>l. l @ sep) xs) = join sep xs @ sep"
proof (induction xs)
  case Nil
  then show ?case by simp
next
  case (Cons x xs)
  then show ?case by (cases xs) simp_all
qed

lemma strip_join_header:
  assumes "hs \<noteq> []"
  shows "strip (join linesep (hs @ ls)) = strip (concat (map (\<lambda>l. l @ linesep) hs) @ join linesep ls)"
proof (cases "ls = []")
  case True
  have "strip (join linesep hs @ linesep) = strip (join linesep hs)"
    by (rule strip_append_ws) (simp add: linesep_def isspace_def)
  with True assms show ?thesis by (simp add: concat_lines_join)
next
  case False
  with assms show ?thesis by (simp add: concat_lines_join join_append)
qed

lemma join_replicate_blank:
  assumes "xs \<noteq> []"
  shows "join linesep (xs @ replicate n blankline) = join linesep xs @ concat (replicate n linesep)"
proof -
  from assms obtain x xs' where "xs = x # xs'" by (cases xs) auto
  then show ?thesis by (simp add: join_Cons blankline_def map_replicate_const)
qed

lemma join_pair_inside:
  assumes "xs \<noteq> []"
  shows "\<exists>a b. join sep (xs @ [d, n] @ ys) = a @ d @ sep @ n @ b"
proof (cases "ys = []")
  case True
  with assms have "join sep (xs @ [d, n] @ ys) = (join sep xs @ sep) @ d @ sep @ n @ []"
    using join_append [of xs "[d, n]" sep] by simp
  then show ?thesis by blast
next
  case False
  have "join sep ((xs @ [d, n]) @ ys) = join sep (xs @ [d, n]) @ sep @ join sep ys"
    using False by (intro join_append) simp_all
  with assms have "join sep (xs @ [d, n] @ ys) = (join sep xs @ sep) @ d @ sep @ n @ (sep @ join sep ys)"
    using join_append [of xs "[d, n]" sep] by simp
  then show ?thesis by blast
qed

lemma content_ends: "content l \<Longrightarrow> l \<noteq> [] \<and> \<not> isspace (last l)"
proof -
  assume c: "content l"
  then obtain x r where xr: "lstrip_spaces l = x # r" and e: "\<not> isspace (last (x # r))"
    by (auto simp: content_def split: list.splits)
  from xr have "dropWhile (\<lambda>c. c = CHR '' '') l \<noteq> []" by (simp add: lstrip_spaces_def)
  then have "last (dropWhile (\<lambda>c. c = CHR '' '') l) = last l" by (rule last_dropWhile_same)
  with xr e have "\<not> isspace (last l)" by (simp add: lstrip_spaces_def)
  moreover from xr have "l \<noteq> []" by (auto simp: lstrip_spaces_def)
  ultimately show ?thesis by simp
qed

section \<open>The claims about rendering\<close>

lemma strip_decomp:
  "\<exists>pre suf. t = pre @ strip t @ suf \<and> list_all isspace pre \<and> list_all isspace suf"
proof -
  let ?a = "dropWhile isspace t"
  let ?pre = "takeWhile isspace t"
  let ?suf = "rev (takeWhile isspace (rev ?a))"
  have "strip t @ ?suf = rev (takeWhile isspace (rev ?a) @ dropWhile isspace (rev ?a))"
    by (simp only: strip_def rev_append)
  also have "\<dots> = rev (rev ?a)" by (simp only: takeWhile_dropWhile_id)
  also have "\<dots> = ?a" by (simp only: rev_rev_ident)
  finally have "?a = strip t @ ?suf" by (rule sym)
  then have "?pre @ ?a = ?pre @ strip t @ ?suf" by simp
  then have "t = ?pre @ strip t @ ?suf" by simp
  moreover have "list_all isspace ?pre"
    by (simp add: list_all_iff) (meson set_takeWhileD)
  moreover have "list_all isspace ?suf"
    by (simp add: list_all_iff) (meson set_takeWhileD)
  ultimately show ?thesis by blast
qed


text \<open>A rendered buffer, evaluated.\<close>

lemma code_example:
  "code \<lparr>module = \<lparr>parent = [''src''], name = ''mod.py'', stem = ''mod''\<rparr>,
         module_docstring = ''\"\"\"Unit tests for `mod.py`\"\"\"'',
         imports_set = Dlist.insert ''import pytest'' Dlist.empty,
         lines = [''def test_add():'', ''    pass'', '''', ''''],
         indent = 0, current_cls = None\<rparr>
   = ''\"\"\"Unit tests for `mod.py`\"\"\"'' @ [CHR 0x0A] @ ''import pytest'' @ [CHR 0x0A] @
     [CHR 0x0A] @ [CHR 0x0A] @ ''def test_add():'' @ [CHR 0x0A] @ ''    pass'' @ [CHR 0x0A]"
  by (simp add: code_def strip_def isspace_def linesep_def blankline_def numeral_2_eq_2)


text \<open>
  Claim C6. Take the docstring line, the import lines and two blank lines, each
  ended by a newline, followed by the buffered lines joined by newlines. The
  rendered text is a body followed by one newline, where the body is that text
  without the whitespace before and after it: the text is whitespace, the body,
  whitespace, and the body neither begins nor ends with whitespace. The imports
  are free of duplicates. Blank lines added at the end of the buffer do not change
  the rendered text.
\<close>

theorem code_shape:
  "\<exists>body pre suf.
     code g = body @ linesep \<and>
     concat (map (\<lambda>l. l @ linesep)
               (module_docstring g # list_of_dlist (imports_set g) @ [blankline, blankline])) @
       join linesep (lines g) = pre @ body @ suf \<and>
     list_all isspace pre \<and> list_all isspace suf \<and>
     dropWhile isspace body = body \<and>
     dropWhile isspace (rev body) = rev body \<and>
     distinct (list_of_dlist (imports_set g)) \<and>
     code (g\<lparr>lines := lines g @ replicate n blankline\<rparr>) = code g"
proof -
  let ?hs = "module_docstring g # list_of_dlist (imports_set g) @ [blankline, blankline]"
  let ?text = "concat (map (\<lambda>l. l @ linesep) ?hs) @ join linesep (lines g)"
  let ?body = "strip ?text"
  have all: "[module_docstring g] @ list_of_dlist (imports_set g) @ replicate 2 blankline @ ls
               = ?hs @ ls" for ls
    by (simp add: numeral_2_eq_2)
  have 1: "code g = ?body @ linesep"
    unfolding code_def Let_def all by (simp only: strip_join_header [of ?hs] list.simps simp_thms)
  have "join linesep ((?hs @ lines g) @ replicate n blankline)
          = join linesep (?hs @ lines g) @ concat (replicate n linesep)"
    by (rule join_replicate_blank) simp
  moreover have "strip (join linesep (?hs @ lines g) @ concat (replicate n linesep))
                   = strip (join linesep (?hs @ lines g))"
    by (rule strip_append_ws) (auto simp: linesep_def isspace_def)
  ultimately have "strip (join linesep (?hs @ lines g @ replicate n blankline))
                     = strip (join linesep (?hs @ lines g))"
    by simp
  then have 2: "code (g\<lparr>lines := lines g @ replicate n blankline\<rparr>) = code g"
    unfolding code_def Let_def by (simp add: numeral_2_eq_2)
  from strip_decomp [of ?text] obtain pre suf
    where 3: "?text = pre @ ?body @ suf" "list_all isspace pre" "list_all isspace suf"
    by blast
  have 4: "dropWhile isspace ?body = ?body" "dropWhile isspace (rev ?body) = rev ?body"
    using strip_fixed [of ?text] by simp_all
  have 5: "distinct (list_of_dlist (imports_set g))" by simp
  show ?thesis
    by (rule exI [of _ ?body], rule exI [of _ pre], rule exI [of _ suf])
       (intro conjI 1 2 3 4 5)
qed

text \<open>
  Claim C10. The docstring line of a class ends with a newline character, and the
  line after it in the buffer is a line with content (the \<^verbatim>\<open>pass\<close> line or the first
  line of the first member). In the rendered text of any state whose buffer begins
  with the lines of the state after the visit, the docstring is followed by two
  newlines, that is one blank line, and then by that line.
\<close>

theorem class_docstring_then_blank_line:
  "\<exists>g' nxt rest.
     visit (ClassDef nm body) g = Inr g' \<and>
     lines g' = lines g @
       [str_mul tab (indent g) @ ''class Test'' @ nm @ '':'',
        str_mul tab (indent g + 1) @ ''\"\"\"Tests for class `'' @ nm @ ''`\"\"\"'' @ [CHR 0x0A],
        nxt] @ rest \<and>
     content nxt \<and>
     (\<forall>G post. sublist (''\"\"\"Tests for class `'' @ nm @ ''`\"\"\"'' @ [CHR 0x0A] @ linesep @ nxt)
                   (code (G\<lparr>lines := lines g' @ post\<rparr>)))"
proof -
  let ?cls = "str_mul tab (indent g) @ ''class Test'' @ nm @ '':''"
  let ?D = "''\"\"\"Tests for class `'' @ nm @ ''`\"\"\"'' @ [CHR 0x0A]"
  let ?doc = "str_mul tab (indent g + 1) @ ?D"
  let ?g3 = "g\<lparr>lines := lines g @ [?cls, ?doc], indent := indent g + 1, current_cls := Some nm\<rparr>"
  from generic_visit_post_all [of body ?g3] obtain g4 em
    where gv: "generic_visit body ?g3 = Inr g4" and ln: "lines g4 = (lines g @ [?cls, ?doc]) @ em"
      and ind: "indent g4 = indent g + 1" and em: "closed_em em"
    by (auto simp: visit_post_def)
  let ?tail = "(if em = [] then [str_mul tab (indent g + 1) @ ''pass'', blankline] else []) @ [blankline]"
  let ?g' = "g4\<lparr>current_cls := None, lines := lines g4 @ ?tail, indent := indent g\<rparr>"
  have step: "visit (ClassDef nm body) g = Inr ?g'"
    by (rule visit_ClassDef_step [OF gv ln em ind])
  obtain nxt rest where nr: "em @ ?tail = nxt # rest" and c: "content nxt"
  proof (cases "em = []")
    case True
    then have "em @ ?tail = (str_mul tab (indent g + 1) @ ''pass'') # [blankline, blankline]" by simp
    with that content_pass_line show ?thesis by blast
  next
    case False
    then obtain x xs where "em = x # xs" by (cases em) auto
    moreover with em have "content x" by (simp add: closed_em_def)
    ultimately have "em @ ?tail = x # (xs @ [blankline])" "content x" by simp_all
    with that show ?thesis by blast
  qed
  from ln nr have l: "lines ?g' = lines g @ [?cls, ?doc, nxt] @ rest" by simp
  have r: "sublist (?D @ linesep @ nxt) (code (G\<lparr>lines := lines ?g' @ post\<rparr>))" for G post
  proof -
    let ?hs = "[module_docstring G] @ list_of_dlist (imports_set G) @ replicate 2 blankline @
                 lines g @ [?cls]"
    have "\<exists>a b. join linesep (?hs @ [?doc, nxt] @ (rest @ post)) = a @ ?doc @ linesep @ nxt @ b"
      by (rule join_pair_inside) simp
    then obtain a b where
      "join linesep (?hs @ [?doc, nxt] @ (rest @ post))
         = (a @ str_mul tab (indent g + 1)) @ (?D @ linesep @ nxt) @ b"
      by auto
    moreover have "sublist (?D @ linesep @ nxt)
                     (strip ((a @ str_mul tab (indent g + 1)) @ (?D @ linesep @ nxt) @ b))"
      using content_ends [OF c] by (intro strip_keeps_block) (simp_all add: isspace_def)
    ultimately have "sublist (?D @ linesep @ nxt)
                       (strip (join linesep (?hs @ [?doc, nxt] @ (rest @ post))))"
      by simp
    then have "sublist (?D @ linesep @ nxt)
                 (strip (join linesep (?hs @ [?doc, nxt] @ (rest @ post))) @ linesep)"
      by (auto simp: sublist_def) (metis append.assoc)
    moreover have "code (G\<lparr>lines := lines ?g' @ post\<rparr>)
                     = strip (join linesep (?hs @ [?doc, nxt] @ (rest @ post))) @ linesep"
      unfolding code_def Let_def using l by simp
    ultimately show ?thesis by simp
  qed
  have r': "\<forall>G post. sublist (''\"\"\"Tests for class `'' @ nm @ ''`\"\"\"'' @ [CHR 0x0A] @ linesep @ nxt)
                   (code (G\<lparr>lines := lines ?g' @ post\<rparr>))"
  proof (intro allI)
    fix G post
    from r [where G = G and post = post] show "sublist (''\"\"\"Tests for class `'' @ nm @ ''`\"\"\"'' @ [CHR 0x0A] @ linesep @ nxt)
                   (code (G\<lparr>lines := lines ?g' @ post\<rparr>))"
      by (simp only: append_assoc)
  qed
  show ?thesis
    by (rule exI [of _ ?g'], rule exI [of _ nxt], rule exI [of _ rest])
       (intro conjI step l c r')
qed

section \<open>The claims about files\<close>

lemma conftest_neq_test_file: "conftest_path g \<noteq> test_file_path g'"
  by (simp add: conftest_path_def test_file_path_def)

lemma tests_dir_neq: "conftest_path g \<noteq> tests_dir g" "test_file_path g \<noteq> tests_dir g"
proof -
  have "length (conftest_path g) \<noteq> length (tests_dir g)"
    by (simp add: conftest_path_def tests_dir_def)
  then show "conftest_path g \<noteq> tests_dir g" by auto
  have "length (test_file_path g) \<noteq> length (tests_dir g)"
    by (simp add: test_file_path_def tests_dir_def)
  then show "test_file_path g \<noteq> tests_dir g" by auto
qed

lemma write_gen_ok:
  assumes "snd (write_gen g fs) = None"
  shows "fst (write_gen g fs) =
           (fs(tests_dir g \<mapsto> Dir,
               conftest_path g \<mapsto> (case fs (conftest_path g) of None \<Rightarrow> File [] | Some e \<Rightarrow> e),
               test_file_path g \<mapsto> File (code g)))"
    and "fst (write_gen g fs) (tests_dir g) = Some Dir"
    and "fst (write_gen g fs) (test_file_path g) \<noteq> Some Dir"
  using assms conftest_neq_test_file [of g g] tests_dir_neq [of g]
  by (auto simp: write_gen_def mkdir_def touch_def write_text_def is_dir_def
                 conftest_path_def test_file_path_def fun_upd_twist
           split: option.splits entry.splits sum.splits if_splits)


lemma write_gen_succeeds:
  assumes "fs (tests_dir g) = Some Dir" and "fs (test_file_path g) \<noteq> Some Dir"
  shows "snd (write_gen g fs) = None"
  using assms
  by (auto simp: write_gen_def mkdir_def touch_def write_text_def is_dir_def
                 conftest_path_def test_file_path_def
           split: option.splits entry.splits sum.splits if_splits)

lemma paths_of_module:
  "module g2 = module g \<Longrightarrow>
     tests_dir g2 = tests_dir g \<and> conftest_path g2 = conftest_path g \<and>
     test_file_path g2 = test_file_path g"
  by (simp add: tests_dir_def conftest_path_def test_file_path_def)

lemma butlast_tests_dir: "butlast (tests_dir g) = parent (module g)"
  by (simp add: tests_dir_def)

lemma write_gen_succeeds_iff:
  "(snd (write_gen g fs) = None) =
     ((fs (tests_dir g) = Some Dir \<or>
       fs (tests_dir g) = None \<and> fs (parent (module g)) = Some Dir) \<and>
      fs (test_file_path g) \<noteq> Some Dir)"
  using tests_dir_neq [of g] conftest_neq_test_file [of g g]
  by (auto simp: write_gen_def mkdir_def touch_def write_text_def is_dir_def
                 conftest_path_def test_file_path_def butlast_tests_dir
           split: option.splits entry.splits sum.splits if_splits)

text \<open>
  Claim C8. \<^verbatim>\<open>write\<close> raises nothing exactly when the tests directory is there, or
  is absent with the module's directory there, and the test file's path is not a
  directory. Then the tests directory exists, the marker file \<^verbatim>\<open>conftest.py\<close> is an
  empty file if it was absent and is what it was if it was present, the test file
  holds the rendered text whatever was there, and nothing else has changed. A second
  \<^verbatim>\<open>write\<close> for the same module then raises nothing either and changes the test
  file only, to its own rendered text.
\<close>

theorem write_keeps_marker_overwrites_test_file:
  assumes m: "module g2 = module g"
  shows "(snd (write_gen g fs) = None) =
           ((fs (tests_dir g) = Some Dir \<or>
             fs (tests_dir g) = None \<and> fs (parent (module g)) = Some Dir) \<and>
            fs (test_file_path g) \<noteq> Some Dir) \<and>
         (snd (write_gen g fs) = None \<longrightarrow>
            fst (write_gen g fs) =
              fs(tests_dir g \<mapsto> Dir,
                 conftest_path g \<mapsto> (case fs (conftest_path g) of None \<Rightarrow> File [] | Some e \<Rightarrow> e),
                 test_file_path g \<mapsto> File (code g)) \<and>
            snd (write_gen g2 (fst (write_gen g fs))) = None \<and>
            fst (write_gen g2 (fst (write_gen g fs)))
              = (fst (write_gen g fs))(test_file_path g \<mapsto> File (code g2)))"
proof (intro conjI impI)
  show "(snd (write_gen g fs) = None) =
           ((fs (tests_dir g) = Some Dir \<or>
             fs (tests_dir g) = None \<and> fs (parent (module g)) = Some Dir) \<and>
            fs (test_file_path g) \<noteq> Some Dir)"
    by (rule write_gen_succeeds_iff)
next
  assume ok: "snd (write_gen g fs) = None"
  let ?fs1 = "fst (write_gen g fs)"
  note p = paths_of_module [OF m]
  note w1 = write_gen_ok [OF ok]
  show "?fs1 = fs(tests_dir g \<mapsto> Dir,
                 conftest_path g \<mapsto> (case fs (conftest_path g) of None \<Rightarrow> File [] | Some e \<Rightarrow> e),
                 test_file_path g \<mapsto> File (code g))"
    by (rule w1(1))
  show ok2: "snd (write_gen g2 ?fs1) = None"
    using w1(2,3) p by (intro write_gen_succeeds) simp_all
  have a: "?fs1 (conftest_path g)
             = Some (case fs (conftest_path g) of None \<Rightarrow> File [] | Some e \<Rightarrow> e)"
    using conftest_neq_test_file [of g g] by (simp add: w1(1))
  have "fst (write_gen g2 ?fs1) =
          ?fs1(tests_dir g \<mapsto> Dir,
               conftest_path g \<mapsto> (case ?fs1 (conftest_path g) of None \<Rightarrow> File [] | Some e \<Rightarrow> e),
               test_file_path g \<mapsto> File (code g2))"
    using write_gen_ok(1) [OF ok2] p by simp
  also have "?fs1(tests_dir g \<mapsto> Dir) = ?fs1"
    using w1(2) by (simp add: fun_upd_idem)
  also have "?fs1(conftest_path g \<mapsto> (case ?fs1 (conftest_path g) of None \<Rightarrow> File [] | Some e \<Rightarrow> e))
               = ?fs1"
    by (simp only: a option.case fun_upd_idem)
  finally show "fst (write_gen g2 ?fs1) = ?fs1(test_file_path g \<mapsto> File (code g2))" .
qed



text \<open>
  A first write, with no tests directory: the directory, an empty marker file and
  the test file are created. And a tests directory that already holds a marker
  file with content and an old test file: the marker keeps its content, the test
  file is replaced.
\<close>

theorem write_keeps_marker_overwrites_test_file_witness:
  "(snd (write_gen (init \<lparr>parent = [''src''], name = ''mod.py'', stem = ''mod''\<rparr>)
          [[''src''] \<mapsto> Dir, [''src'', ''mod.py''] \<mapsto> File ''def f(): pass'']) = None \<and>
    fst (write_gen (init \<lparr>parent = [''src''], name = ''mod.py'', stem = ''mod''\<rparr>)
          [[''src''] \<mapsto> Dir, [''src'', ''mod.py''] \<mapsto> File ''def f(): pass''])
      = [[''src''] \<mapsto> Dir, [''src'', ''mod.py''] \<mapsto> File ''def f(): pass'',
         [''src'', ''tests''] \<mapsto> Dir,
         [''src'', ''tests'', ''conftest.py''] \<mapsto> File [],
         [''src'', ''tests'', ''test_mod.py'']
           \<mapsto> File (code (init \<lparr>parent = [''src''], name = ''mod.py'', stem = ''mod''\<rparr>))]) \<and>
   (snd (write_gen (init \<lparr>parent = [''src''], name = ''mod.py'', stem = ''mod''\<rparr>)
          [[''src''] \<mapsto> Dir, [''src'', ''tests''] \<mapsto> Dir,
           [''src'', ''tests'', ''conftest.py''] \<mapsto> File ''import os'',
           [''src'', ''tests'', ''test_mod.py''] \<mapsto> File ''old'']) = None \<and>
    fst (write_gen (init \<lparr>parent = [''src''], name = ''mod.py'', stem = ''mod''\<rparr>)
          [[''src''] \<mapsto> Dir, [''src'', ''tests''] \<mapsto> Dir,
           [''src'', ''tests'', ''conftest.py''] \<mapsto> File ''import os'',
           [''src'', ''tests'', ''test_mod.py''] \<mapsto> File ''old''])
      = [[''src''] \<mapsto> Dir, [''src'', ''tests''] \<mapsto> Dir,
         [''src'', ''tests'', ''conftest.py''] \<mapsto> File ''import os'',
         [''src'', ''tests'', ''test_mod.py'']
           \<mapsto> File (code (init \<lparr>parent = [''src''], name = ''mod.py'', stem = ''mod''\<rparr>))])"
proof -
  let ?g = "init \<lparr>parent = [''src''], name = ''mod.py'', stem = ''mod''\<rparr>"
  let ?fsA = "[[''src''] \<mapsto> Dir, [''src'', ''mod.py''] \<mapsto> File ''def f(): pass'']"
  let ?fsB = "[[''src''] \<mapsto> Dir, [''src'', ''tests''] \<mapsto> Dir,
           [''src'', ''tests'', ''conftest.py''] \<mapsto> File ''import os'',
           [''src'', ''tests'', ''test_mod.py''] \<mapsto> File ''old'']"
  have p: "tests_dir ?g = [''src'', ''tests'']" "conftest_path ?g = [''src'', ''tests'', ''conftest.py'']"
    "test_file_path ?g = [''src'', ''tests'', ''test_mod.py'']" "parent (module ?g) = [''src'']"
    by (simp_all add: tests_dir_def conftest_path_def test_file_path_def init_def tests_dir_name_def)
  note A = write_keeps_marker_overwrites_test_file [OF refl, of ?g ?fsA]
  note B = write_keeps_marker_overwrites_test_file [OF refl, of ?g ?fsB]
  from A have okA: "snd (write_gen ?g ?fsA) = None" by (simp add: p)
  from B have okB: "snd (write_gen ?g ?fsB) = None" by (simp add: p)
  from A okA have "fst (write_gen ?g ?fsA)
      = ?fsA([''src'', ''tests''] \<mapsto> Dir, [''src'', ''tests'', ''conftest.py''] \<mapsto> File [],
             [''src'', ''tests'', ''test_mod.py''] \<mapsto> File (code ?g))"
    by (simp add: p)
  moreover from B okB have "fst (write_gen ?g ?fsB)
      = ?fsB([''src'', ''tests''] \<mapsto> Dir, [''src'', ''tests'', ''conftest.py''] \<mapsto> File ''import os'',
             [''src'', ''tests'', ''test_mod.py''] \<mapsto> File (code ?g))"
    by (simp add: p)
  ultimately show ?thesis using okA okB by (simp add: fun_upd_twist)
qed

text \<open>
  Claim C7. When the text of a module is not parsed, \<^verbatim>\<open>generate\<close> raises the parser's
  exception as it is, the loop over the modules ends with that exception, and the
  files are the ones from before: nothing was created or written for the module.
\<close>

theorem parse_error_writes_nothing:
  assumes rd: "read_text (files w) (module_path m) = Inr txt"
    and pe: "parse txt = Inl e"
    and nm: "take 1 (name m) \<noteq> ''_''"
  shows "generate parse (files w) (init m) = Inl e \<and>
         snd (loop_modules parse (m # ms) w) = Some e \<and>
         files (fst (loop_modules parse (m # ms) w)) = files w"
proof -
  from rd have nd: "\<not> is_dir (files w) (module_path m)"
    by (auto simp: read_text_def is_dir_def split: option.splits entry.splits)
  have m: "module (init m) = m" by (simp add: init_def)
  from rd pe have g: "generate parse (files w) (init m) = Inl e"
    by (simp add: generate_def m)
  from nd nm g show ?thesis by (simp add: Let_def)
qed

text \<open>A module with the text \<^verbatim>\<open>def (\<close> and a parser that rejects it.\<close>

theorem parse_error_writes_nothing_witness:
  "generate (\<lambda>txt. Inl SyntaxError) [[''src'', ''mod.py''] \<mapsto> File ''def (''] 
     (init \<lparr>parent = [''src''], name = ''mod.py'', stem = ''mod''\<rparr>) = Inl SyntaxError \<and>
   snd (loop_modules (\<lambda>txt. Inl SyntaxError)
          [\<lparr>parent = [''src''], name = ''mod.py'', stem = ''mod''\<rparr>]
          \<lparr>files = [[''src'', ''mod.py''] \<mapsto> File ''def (''], console = []\<rparr>) = Some SyntaxError \<and>
   files (fst (loop_modules (\<lambda>txt. Inl SyntaxError)
          [\<lparr>parent = [''src''], name = ''mod.py'', stem = ''mod''\<rparr>]
          \<lparr>files = [[''src'', ''mod.py''] \<mapsto> File ''def (''], console = []\<rparr>))
     = [[''src'', ''mod.py''] \<mapsto> File ''def ('']"
proof -
  let ?m = "\<lparr>parent = [''src''], name = ''mod.py'', stem = ''mod''\<rparr>"
  let ?w = "\<lparr>files = [[''src'', ''mod.py''] \<mapsto> File ''def (''], console = []\<rparr>"
  have 1: "read_text (files ?w) (module_path ?m) = Inr ''def (''"
    by (simp add: read_text_def module_path_def)
  have 2: "(\<lambda>txt. Inl SyntaxError :: error + node) ''def ('' = Inl SyntaxError" by simp
  have 3: "take 1 (name ?m) \<noteq> ''_''" by simp
  from parse_error_writes_nothing [OF 1 2 3, of "[]"] show ?thesis by simp
qed

end
